theory Spec2Isabelle
  imports Main "HOL-Library.Log_Nat"
begin

section \<open>Python numbers\<close>

text \<open>
  Python integers are unbounded and are modelled by \<open>int\<close>. A Python float is an IEEE
  binary64 number; it is modelled by the rational it denotes. Every float operation
  computes the exact rational result and rounds it to the nearest number with a 53-bit
  significand, ties to even (\<open>fl\<close>). The exponent range is not bounded in the model:
  overflow to infinity and subnormal numbers, which need magnitudes beyond
  \<open>2 ^ 1023\<close> or below \<open>2 ^ -1022\<close>, are outside it.
\<close>

definition py_int :: "rat \<Rightarrow> int" where
  \<comment> \<open>\<open>int(x)\<close> on a float: truncation toward zero.\<close>
  "py_int q = (if 0 \<le> q then \<lfloor>q\<rfloor> else \<lceil>q\<rceil>)"

definition rne :: "rat \<Rightarrow> int" where
  \<comment> \<open>Nearest integer, ties to the even one.\<close>
  "rne q = (let f = \<lfloor>q\<rfloor>; r = q - of_int f
            in if r < 1/2 \<or> (r = 1/2 \<and> even f) then f else f + 1)"

definition expo :: "rat \<Rightarrow> int" where
  \<comment> \<open>The binary exponent of a positive rational: \<open>2 powi expo q \<le> q < 2 powi (expo q + 1)\<close>.\<close>
  "expo q = (let (a, b) = quotient_of q; d = bitlen a - bitlen b
             in if 2 powi d \<le> q then d else d - 1)"

definition fl :: "rat \<Rightarrow> rat" where
  \<comment> \<open>Rounding to binary64: 53 significant bits, round to nearest, ties to even.\<close>
  "fl q = (if q = 0 then 0
           else let u = 2 powi (expo \<bar>q\<bar> - 52) in of_int (rne (q / u)) * u)"

definition float_of_int :: "int \<Rightarrow> rat" where
  \<comment> \<open>The implicit conversion of an int operand in mixed int/float arithmetic.\<close>
  "float_of_int n = fl (of_int n)"

definition fmul :: "rat \<Rightarrow> rat \<Rightarrow> rat" where
  "fmul a b = fl (a * b)"

definition fsub :: "rat \<Rightarrow> rat \<Rightarrow> rat" where
  "fsub a b = fl (a - b)"

definition fdiv :: "rat \<Rightarrow> rat \<Rightarrow> rat" where
  \<comment> \<open>Float division; every divisor in the program is a non-zero constant.\<close>
  "fdiv a b = fl (a / b)"

definition int_truediv :: "int \<Rightarrow> int \<Rightarrow> rat" where
  \<comment> \<open>\<open>a / b\<close> on two ints: the correctly rounded quotient.\<close>
  "int_truediv a b = fl (of_int a / of_int b)"

definition py_round :: "rat \<Rightarrow> int" where
  \<comment> \<open>\<open>round(x)\<close> on a float: nearest integer, ties to even.\<close>
  "py_round q = rne q"

definition py_round2 :: "rat \<Rightarrow> rat" where
  \<comment> \<open>\<open>round(x, 2)\<close> on a float: the float nearest to \<open>x\<close> rounded to two decimals.\<close>
  "py_round2 q = fl (of_int (rne (q * 100)) / 100)"

section \<open>Configuration\<close>

definition PORTRAIT_ASPECT_RATIO :: rat where
  "PORTRAIT_ASPECT_RATIO = int_truediv 3 4"

definition VERTICAL_EXPANSION_FACTOR :: rat where
  "VERTICAL_EXPANSION_FACTOR = fl (18 / 10)"

definition FACE_HORIZONTAL_PADDING :: rat where
  "FACE_HORIZONTAL_PADDING = fl (11 / 10)"

definition FACE_VERTICAL_ANCHOR :: rat where
  "FACE_VERTICAL_ANCHOR = fl (23 / 100)"

definition SUPPORTED_EXT :: "string list" where
  "SUPPORTED_EXT = [''.png'', ''.jpg'', ''.jpeg'']"

section \<open>Crop geometry: \<open>calculate_3_4_crop\<close>\<close>

type_synonym box = "int \<times> int \<times> int \<times> int"

definition crop_size :: "int \<Rightarrow> int \<Rightarrow> int \<times> int" where
  \<comment> \<open>Lines 57 to 62: \<open>(W_crop, H_crop)\<close> from the face's width and height.\<close>
  "crop_size w_f h_f =
     (let H_crop = py_int (fmul (float_of_int h_f) VERTICAL_EXPANSION_FACTOR);
          W_crop = py_int (fmul (float_of_int H_crop) PORTRAIT_ASPECT_RATIO)
      in if of_int W_crop < fmul (float_of_int w_f) FACE_HORIZONTAL_PADDING
         then (let W_crop = py_int (fmul (float_of_int w_f) FACE_HORIZONTAL_PADDING);
                   H_crop = py_int (fdiv (float_of_int W_crop) PORTRAIT_ASPECT_RATIO)
               in (W_crop, H_crop))
         else (W_crop, H_crop))"

definition width_branch :: "int \<Rightarrow> int \<Rightarrow> bool" where
  \<comment> \<open>The test of line 60.\<close>
  "width_branch w_f h_f =
     (let H_crop = py_int (fmul (float_of_int h_f) VERTICAL_EXPANSION_FACTOR);
          W_crop = py_int (fmul (float_of_int H_crop) PORTRAIT_ASPECT_RATIO)
      in of_int W_crop < fmul (float_of_int w_f) FACE_HORIZONTAL_PADDING)"

definition crop_origin :: "int \<Rightarrow> int \<Rightarrow> int \<Rightarrow> int \<Rightarrow> int \<Rightarrow> int \<times> int" where
  \<comment> \<open>Lines 64 and 65: \<open>(x0_c, y0_c)\<close> before clamping.\<close>
  "crop_origin x0_f y0_f x1_f W_crop H_crop =
     (let y0_c = py_int (fsub (float_of_int y0_f) (fmul (float_of_int H_crop) FACE_VERTICAL_ANCHOR));
          x0_c = py_int (fsub (int_truediv (x0_f + x1_f) 2) (int_truediv W_crop 2))
      in (x0_c, y0_c))"

definition calculate_3_4_crop :: "box \<Rightarrow> int \<Rightarrow> int \<Rightarrow> box" where
  "calculate_3_4_crop face_bbox img_w img_h =
     (let (x0_f, y0_f, x1_f, y1_f) = face_bbox;
          w_f = x1_f - x0_f; h_f = y1_f - y0_f;
          (W_crop, H_crop) = crop_size w_f h_f;
          (x0_c, y0_c) = crop_origin x0_f y0_f x1_f W_crop H_crop;
          x0_c = max 0 (min x0_c (img_w - W_crop));
          y0_c = max 0 (min y0_c (img_h - H_crop))
      in (x0_c, y0_c, x0_c + W_crop, y0_c + H_crop))"

section \<open>Face selection: \<open>get_face_bbox\<close>\<close>

text \<open>
  The detector, the image codec and the file system are collaborators of the program.
  What each of them does for one input is a field of the records below: either it
  raises an exception or it delivers its result. Exceptions are those of class
  \<open>Exception\<close>, each with the text \<open>str(e)\<close> gives.
\<close>

datatype py_exception = PyException string

record facial_area =
  area_x :: int
  area_y :: int
  area_w :: int
  area_h :: int

type_synonym face = "facial_area option"
  \<comment> \<open>One dict of the detector's list: its \<open>"facial_area"\<close> entry, \<open>None\<close> when the key is absent.\<close>

definition key_error :: "string \<Rightarrow> py_exception" where
  \<comment> \<open>\<open>KeyError(k)\<close>: its text is the key between single quotes.\<close>
  "key_error k = PyException ([CHR 0x27] @ k @ [CHR 0x27])"

definition area_key :: "face \<Rightarrow> py_exception + int" where
  \<comment> \<open>The key function of line 46; a missing entry raises \<open>KeyError\<close>.\<close>
  "area_key d = (case d of None \<Rightarrow> Inl (key_error ''facial_area'')
                 | Some a \<Rightarrow> Inr (area_w a * area_h a))"

fun max_loop :: "face \<Rightarrow> int \<Rightarrow> face list \<Rightarrow> py_exception + face" where
  \<comment> \<open>The builtin \<open>max\<close> after its first item: a later item replaces the best one only
     when its key is strictly greater.\<close>
  "max_loop maxitem maxval [] = Inr maxitem"
| "max_loop maxitem maxval (d # ds) =
     (case area_key d of
        Inl e \<Rightarrow> Inl e
      | Inr val \<Rightarrow> if maxval < val then max_loop d val ds else max_loop maxitem maxval ds)"

definition py_max :: "face list \<Rightarrow> py_exception + face" where
  "py_max ds = (case ds of
                  [] \<Rightarrow> Inl (PyException ''max() arg is an empty sequence'')
                | d # ds' \<Rightarrow> (case area_key d of
                               Inl e \<Rightarrow> Inl e
                             | Inr val \<Rightarrow> max_loop d val ds'))"

definition get_face_bbox_try :: "py_exception + face list \<Rightarrow> py_exception + box option" where
  \<comment> \<open>Lines 37 to 49, the body of the \<open>try\<close>; the argument is what
     \<open>DeepFace.extract_faces\<close> does on the image.\<close>
  "get_face_bbox_try extract_faces =
     (case extract_faces of
        Inl e \<Rightarrow> Inl e
      | Inr detected_faces \<Rightarrow>
          if detected_faces = [] \<or> \<not> list_ex (\<lambda>d. d \<noteq> None) detected_faces then Inr None
          else (case py_max detected_faces of
                  Inl e \<Rightarrow> Inl e
                | Inr largest \<Rightarrow>
                    (case largest of
                       None \<Rightarrow> Inl (key_error ''facial_area'')
                     | Some area \<Rightarrow>
                         Inr (Some (area_x area, area_y area,
                                    area_x area + area_w area, area_y area + area_h area)))))"

record image =
  img_size :: "int \<times> int"
  rgb_array :: "py_exception option"
  extract_faces :: "py_exception + face list"
  crop_raises :: "box \<Rightarrow> py_exception option"
  save_raises :: "string list \<Rightarrow> string \<Rightarrow> py_exception option"

definition get_face_bbox :: "image \<Rightarrow> py_exception + box option" where
  \<comment> \<open>Line 35 is outside the \<open>try\<close>: its exception leaves the function (\<open>Inl\<close>). The
     bare \<open>except\<close> of line 50 turns every exception of the body into \<open>None\<close>.\<close>
  "get_face_bbox img =
     (case rgb_array img of
        Some e \<Rightarrow> Inl e
      | None \<Rightarrow> (case get_face_bbox_try (extract_faces img) of
                   Inl e \<Rightarrow> Inr None
                 | Inr r \<Rightarrow> Inr r))"

section \<open>The batch: \<open>CropWorker.run\<close>\<close>

type_synonym path = "string list"

record input_file =
  file_name :: string
  file_suffix :: string
  parent_rel :: path
  open_image :: "py_exception + image"
  mkdir_raises :: "py_exception option"

datatype log_line = NoImages | Success string | NoFace string | Error string string

datatype event = Log log_line | Progress int | Finished

datatype fs_action = Mkdir path | Save path string

definition lower_char :: "char \<Rightarrow> char" where
  "lower_char c = (let n = of_char c :: nat in if 65 \<le> n \<and> n \<le> 90 then char_of (n + 32) else c)"

definition lower :: "string \<Rightarrow> string" where
  "lower s = map lower_char s"

definition eligible :: "input_file \<Rightarrow> bool" where
  \<comment> \<open>The filter of line 88.\<close>
  "eligible f = (lower (file_suffix f) \<in> set SUPPORTED_EXT)"

definition try_body :: "path \<Rightarrow> input_file \<Rightarrow> fs_action list \<times> (py_exception + log_line)" where
  \<comment> \<open>Lines 96 to 110: the directories and files written, and either the exception that
     reaches the handler of line 111 or the line logged.\<close>
  "try_body out_dir f =
     (case open_image f of
        Inl e \<Rightarrow> ([], Inl e)
      | Inr img \<Rightarrow>
          (case get_face_bbox img of
             Inl e \<Rightarrow> ([], Inl e)
           | Inr None \<Rightarrow> ([], Inr (NoFace (file_name f)))
           | Inr (Some bbox) \<Rightarrow>
               (let crop = calculate_3_4_crop bbox (fst (img_size img)) (snd (img_size img))
                in case crop_raises img crop of
                     Some e \<Rightarrow> ([], Inl e)
                   | None \<Rightarrow>
                       (let target_dir = out_dir @ parent_rel f
                        in case mkdir_raises f of
                             Some e \<Rightarrow> ([], Inl e)
                           | None \<Rightarrow>
                               (let ext = (if lower (file_suffix f) \<in> set [''.jpg'', ''.jpeg'']
                                           then ''JPEG'' else ''PNG'');
                                    target = target_dir @ [file_name f]
                                in case save_raises img target ext of
                                     Some e \<Rightarrow> ([Mkdir target_dir], Inl e)
                                   | None \<Rightarrow> ([Mkdir target_dir, Save target ext],
                                              Inr (Success (file_name f))))))))"

definition log_of :: "path \<Rightarrow> input_file \<Rightarrow> log_line" where
  \<comment> \<open>The one line logged for a file: by line 108 or 110, or by the handler of line 112.\<close>
  "log_of out_dir f =
     (case snd (try_body out_dir f) of
        Inl (PyException msg) \<Rightarrow> Error (file_name f) msg
      | Inr l \<Rightarrow> l)"

definition progress :: "nat \<Rightarrow> nat \<Rightarrow> int" where
  \<comment> \<open>Line 114, for index \<open>i\<close> of \<open>n\<close> files.\<close>
  "progress i n = py_int (fmul (int_truediv (int i + 1) (int n)) (float_of_int 100))"

fun loop :: "path \<Rightarrow> nat \<Rightarrow> nat \<Rightarrow> input_file list \<Rightarrow> event list \<times> fs_action list" where
  "loop out_dir n i [] = ([], [])"
| "loop out_dir n i (f # fs) =
     (let (evs, acts) = loop out_dir n (i + 1) fs
      in (Log (log_of out_dir f) # Progress (progress i n) # evs,
          fst (try_body out_dir f) @ acts))"

definition run :: "input_file list \<Rightarrow> path \<Rightarrow> event list \<times> fs_action list" where
  \<comment> \<open>\<open>listing\<close> is what \<open>in_dir.rglob("*")\<close> yields.\<close>
  "run listing out_dir =
     (let files = filter eligible listing
      in if files = [] then ([Log NoImages, Finished], [])
         else (let (evs, acts) = loop out_dir (length files) 0 files
               in (evs @ [Finished], acts)))"


section \<open>Reading a run\<close>

fun logs :: "event list \<Rightarrow> log_line list" where
  "logs [] = []"
| "logs (Log l # evs) = l # logs evs"
| "logs (Progress p # evs) = logs evs"
| "logs (Finished # evs) = logs evs"

fun progress_values :: "event list \<Rightarrow> int list" where
  "progress_values [] = []"
| "progress_values (Log l # evs) = progress_values evs"
| "progress_values (Progress p # evs) = p # progress_values evs"
| "progress_values (Finished # evs) = progress_values evs"

fun is_failed :: "log_line \<Rightarrow> bool" where
  "is_failed (Error name msg) = True"
| "is_failed l = False"

fun is_cropped :: "log_line \<Rightarrow> bool" where
  "is_cropped (Success name) = True"
| "is_cropped l = False"

fun is_no_face :: "log_line \<Rightarrow> bool" where
  "is_no_face (NoFace name) = True"
| "is_no_face l = False"

definition raises :: "path \<Rightarrow> input_file \<Rightarrow> bool" where
  \<comment> \<open>An exception reaches the handler of line 111.\<close>
  "raises out_dir f = isl (snd (try_body out_dir f))"

definition progress_spec :: "nat \<Rightarrow> nat \<Rightarrow> int" where
  \<comment> \<open>The progress value in the specification's words:
     \<open>round(completedCount / totalCount * 100)\<close>.\<close>
  "progress_spec completedCount totalCount =
     py_round (fmul (int_truediv (int completedCount) (int totalCount)) (float_of_int 100))"

fun message :: "py_exception \<Rightarrow> string" where
  "message (PyException msg) = msg"

definition selected_bbox :: "image \<Rightarrow> box option" where
  \<comment> \<open>The box selected from what the detector delivers; none when the detector raises.\<close>
  "selected_bbox img =
     (case get_face_bbox_try (extract_faces img) of Inl e \<Rightarrow> None | Inr r \<Rightarrow> r)"

definition failing_step :: "path \<Rightarrow> input_file \<Rightarrow> py_exception option" where
  \<comment> \<open>The exception of the first collaborator step of a file that raises, the detector
     call apart: decoding, the conversion to an array, and, for a file with a selected
     face, cropping, creating the directory, encoding. It is read off the collaborators,
     not off \<open>try_body\<close>.\<close>
  "failing_step out_dir f =
     (case open_image f of
        Inl e \<Rightarrow> Some e
      | Inr img \<Rightarrow>
          (case rgb_array img of
             Some e \<Rightarrow> Some e
           | None \<Rightarrow>
               (case selected_bbox img of
                  None \<Rightarrow> None
                | Some bbox \<Rightarrow>
                    (case crop_raises img
                            (calculate_3_4_crop bbox (fst (img_size img)) (snd (img_size img))) of
                       Some e \<Rightarrow> Some e
                     | None \<Rightarrow>
                         (case mkdir_raises f of
                            Some e \<Rightarrow> Some e
                          | None \<Rightarrow>
                              save_raises img (out_dir @ parent_rel f @ [file_name f])
                                (if lower (file_suffix f) \<in> set [''.jpg'', ''.jpeg'']
                                 then ''JPEG'' else ''PNG''))))))"

definition detector_raises :: "input_file \<Rightarrow> bool" where
  \<comment> \<open>The file is decoded and converted, and the detector call of line 37 raises.\<close>
  "detector_raises f =
     (case open_image f of
        Inl e \<Rightarrow> False
      | Inr img \<Rightarrow> rgb_array img = None \<and> isl (extract_faces img))"

section \<open>Example inputs\<close>

definition face_img :: image where
  \<comment> \<open>A 1000 by 1000 image with one face at (100, 100), 80 wide and 120 high.\<close>
  "face_img = \<lparr>img_size = (1000, 1000), rgb_array = None,
                extract_faces = Inr [Some \<lparr>area_x = 100, area_y = 100, area_w = 80, area_h = 120\<rparr>],
                crop_raises = (\<lambda>b. None), save_raises = (\<lambda>p fmt. None)\<rparr>"

definition detector_fails_img :: image where
  "detector_fails_img = \<lparr>img_size = (640, 480), rgb_array = None,
                          extract_faces = Inl (PyException ''detector failed''),
                          crop_raises = (\<lambda>b. None), save_raises = (\<lambda>p fmt. None)\<rparr>"

definition mixed_img :: image where
  \<comment> \<open>The detector returns one dict without \<open>"facial_area"\<close> and one with it.\<close>
  "mixed_img = \<lparr>img_size = (1000, 1000), rgb_array = None,
                 extract_faces = Inr [None, Some \<lparr>area_x = 100, area_y = 100, area_w = 80, area_h = 120\<rparr>],
                 crop_raises = (\<lambda>b. None), save_raises = (\<lambda>p fmt. None)\<rparr>"

definition file_a :: input_file where
  "file_a = \<lparr>file_name = ''a.png'', file_suffix = ''.png'', parent_rel = [''sub''],
              open_image = Inr face_img, mkdir_raises = None\<rparr>"

definition file_b :: input_file where
  "file_b = \<lparr>file_name = ''b.JPG'', file_suffix = ''.JPG'', parent_rel = [],
              open_image = Inl (PyException ''cannot identify image file''), mkdir_raises = None\<rparr>"

definition file_c :: input_file where
  "file_c = \<lparr>file_name = ''c.jpeg'', file_suffix = ''.jpeg'', parent_rel = [],
              open_image = Inr detector_fails_img, mkdir_raises = None\<rparr>"

definition unconvertible_img :: image where
  "unconvertible_img = \<lparr>img_size = (640, 480), rgb_array = Some (PyException ''cannot convert''),
                          extract_faces = Inr [], crop_raises = (\<lambda>b. None),
                          save_raises = (\<lambda>p fmt. None)\<rparr>"

definition crop_fails_img :: image where
  "crop_fails_img = \<lparr>img_size = (1000, 1000), rgb_array = None,
                      extract_faces = Inr [Some \<lparr>area_x = 100, area_y = 100, area_w = 80, area_h = 120\<rparr>],
                      crop_raises = (\<lambda>b. Some (PyException ''crop failed'')),
                      save_raises = (\<lambda>p fmt. None)\<rparr>"

definition save_fails_img :: image where
  "save_fails_img = \<lparr>img_size = (1000, 1000), rgb_array = None,
                      extract_faces = Inr [Some \<lparr>area_x = 100, area_y = 100, area_w = 80, area_h = 120\<rparr>],
                      crop_raises = (\<lambda>b. None),
                      save_raises = (\<lambda>p fmt. Some (PyException ''disk full''))\<rparr>"

definition file_d :: input_file where
  "file_d = \<lparr>file_name = ''d.png'', file_suffix = ''.png'', parent_rel = [],
              open_image = Inr unconvertible_img, mkdir_raises = None\<rparr>"

definition file_e :: input_file where
  "file_e = \<lparr>file_name = ''e.png'', file_suffix = ''.png'', parent_rel = [],
              open_image = Inr crop_fails_img, mkdir_raises = None\<rparr>"

definition file_f :: input_file where
  "file_f = \<lparr>file_name = ''f.png'', file_suffix = ''.png'', parent_rel = [''sub''],
              open_image = Inr face_img, mkdir_raises = Some (PyException ''permission denied'')\<rparr>"

definition file_g :: input_file where
  "file_g = \<lparr>file_name = ''g.jpg'', file_suffix = ''.jpg'', parent_rel = [],
              open_image = Inr save_fails_img, mkdir_raises = None\<rparr>"

definition file_txt :: input_file where
  "file_txt = \<lparr>file_name = ''notes.txt'', file_suffix = ''.txt'', parent_rel = [],
                open_image = Inl (PyException ''cannot identify image file''), mkdir_raises = None\<rparr>"

section \<open>Properties of binary64 rounding\<close>

text \<open>
  The facts about \<open>fl\<close> that the geometry and progress proofs rest on: the exponent
  brackets its argument, rounding is monotone and odd, and a number whose significand
  fits in 53 bits is not changed.
\<close>

lemma pow2_of_nat: "0 \<le> k \<Longrightarrow> (of_int (2 ^ nat k) :: rat) = 2 powi k"
  by (simp add: power_int_def)

lemma expo_bounds:
  assumes "0 < q"
  shows "2 powi (expo q) \<le> q \<and> q < 2 powi (expo q + 1)"
proof -
  obtain a b where ab: "quotient_of q = (a, b)" by (cases "quotient_of q")
  have b: "0 < b" using ab quotient_of_denom_pos by blast
  have q: "q = of_int a / of_int b" using ab quotient_of_div by blast
  have a: "0 < a" using assms b q by (simp add: zero_less_divide_iff)
  define la where "la = bitlen a"
  define lb where "lb = bitlen b"
  have la1: "1 \<le> la" and lb1: "1 \<le> lb"
    using a b by (auto simp: la_def lb_def bitlen_alt_def)
  have A: "(2::rat) powi (la - 1) \<le> of_int a" "(of_int a :: rat) < 2 powi la"
    using bitlen_bounds[OF a] la1 pow2_of_nat[of "la - 1"] pow2_of_nat[of la]
    unfolding la_def
    by (metis of_int_le_iff diff_ge_0_iff_ge, metis of_int_less_iff zero_le_one order_trans)
  have B: "(2::rat) powi (lb - 1) \<le> of_int b" "(of_int b :: rat) < 2 powi lb"
    using bitlen_bounds[OF b] lb1 pow2_of_nat[of "lb - 1"] pow2_of_nat[of lb]
    unfolding lb_def
    by (metis of_int_le_iff diff_ge_0_iff_ge, metis of_int_less_iff zero_le_one order_trans)
  have bpos: "(0::rat) < of_int b" using b by simp
  have up: "q < 2 powi (la - lb + 1)"
  proof -
    have "of_int a * (1::rat) < 2 powi la * 1" using A by simp
    have "(2::rat) powi la = 2 powi (la - lb + 1) * 2 powi (lb - 1)"
      by (simp flip: power_int_add)
    also have "\<dots> \<le> 2 powi (la - lb + 1) * of_int b"
      using B(1) by (simp add: mult_left_mono)
    finally have "of_int a < 2 powi (la - lb + 1) * (of_int b :: rat)" using A(2) by simp
    then show ?thesis unfolding q using bpos by (simp add: pos_divide_less_eq)
  qed
  have lo: "2 powi (la - lb - 1) < q"
  proof -
    have "2 powi (la - lb - 1) * of_int b < 2 powi (la - lb - 1) * (2::rat) powi lb"
      using B(2) by (simp add: mult_strict_left_mono)
    also have "\<dots> = (2::rat) powi (la - 1)"
      by (simp flip: power_int_add)
    also have "\<dots> \<le> of_int a" by (rule A(1))
    finally have "2 powi (la - lb - 1) * (of_int b :: rat) < of_int a" .
    then show ?thesis unfolding q using bpos by (simp add: pos_less_divide_eq)
  qed
  have e: "expo q = (if 2 powi (la - lb) \<le> q then la - lb else la - lb - 1)"
    by (simp add: expo_def ab la_def lb_def)
  show ?thesis
  proof (cases "2 powi (la - lb) \<le> q")
    case True
    then show ?thesis using e up by simp
  next
    case False
    then show ?thesis using e lo by simp
  qed
qed


lemma pow2_less_cancel: "(2::rat) powi a < 2 powi b \<Longrightarrow> a < b"
  using power_int_increasing[of b a "2::rat"] by (cases "a < b") auto

lemma expo_unique:
  assumes "0 < q" "2 powi e \<le> q" "q < 2 powi (e + 1)"
  shows "expo q = e"
proof -
  from expo_bounds[OF assms(1)] assms
  have "(2::rat) powi (expo q) < 2 powi (e + 1)" "(2::rat) powi e < 2 powi (expo q + 1)"
    by auto
  then have "expo q < e + 1" "e < expo q + 1"
    by (auto dest: pow2_less_cancel)
  then show ?thesis by simp
qed

lemma expo_mono:
  assumes "0 < x" "x \<le> y"
  shows "expo x \<le> expo y"
proof -
  have "0 < y" using assms by simp
  from expo_bounds[OF assms(1)] expo_bounds[OF this] assms(2)
  have "(2::rat) powi (expo x) < 2 powi (expo y + 1)" by auto
  then show ?thesis by (auto dest: pow2_less_cancel)
qed

lemma rne_of_int [simp]: "rne (of_int n) = n"
  by (simp add: rne_def)

lemma rne_floor: "\<lfloor>q\<rfloor> \<le> rne q" "rne q \<le> \<lfloor>q\<rfloor> + 1"
  by (simp_all add: rne_def Let_def)

lemma rne_mono:
  assumes "x \<le> y"
  shows "rne x \<le> rne y"
proof (cases "\<lfloor>x\<rfloor> = \<lfloor>y\<rfloor>")
  case True
  then show ?thesis using assms by (auto simp: rne_def Let_def)
next
  case False
  then have "\<lfloor>x\<rfloor> < \<lfloor>y\<rfloor>" using floor_mono[OF assms] by simp
  then have "rne x \<le> \<lfloor>y\<rfloor>" using rne_floor(2)[of x] by simp
  then show ?thesis using rne_floor(1)[of y] by simp
qed

lemma rne_minus: "rne (- q) = - rne q"
proof (cases "q \<in> \<int>")
  case True
  then obtain n where "q = of_int n" by (auto elim: Ints_cases)
  then show ?thesis by (simp add: rne_def flip: of_int_minus)
next
  case False
  then have "q \<noteq> of_int \<lfloor>q\<rfloor>" by (metis Ints_of_int)
  then have "\<lceil>q\<rceil> = \<lfloor>q\<rfloor> + 1" by (simp add: ceiling_altdef)
  then have f: "\<lfloor>- q\<rfloor> = - \<lfloor>q\<rfloor> - 1"
    by (simp add: ceiling_def)
  have fr: "q - of_int \<lfloor>q\<rfloor> \<noteq> 0"
    using False by (metis Ints_of_int eq_iff_diff_eq_0)
  show ?thesis
    unfolding rne_def Let_def f using fr
    by (auto simp: algebra_simps)
qed


lemma rne_ge: "of_int n \<le> q \<Longrightarrow> n \<le> rne q"
  using rne_mono[of "of_int n" q] by simp

lemma rne_le: "q \<le> of_int n \<Longrightarrow> rne q \<le> n"
  using rne_mono[of q "of_int n"] by simp

lemma fl_pos_eq:
  "0 < q \<Longrightarrow> fl q = of_int (rne (q / 2 powi (expo q - 52))) * 2 powi (expo q - 52)"
  by (simp add: fl_def Let_def)

lemma fl_minus: "fl (- q) = - fl q"
  by (simp add: fl_def Let_def rne_minus)

lemma fl_0 [simp]: "fl 0 = 0"
  by (simp add: fl_def)

lemma fl_range:
  assumes "0 < q"
  shows "2 powi (expo q) \<le> fl q" "fl q \<le> 2 powi (expo q + 1)"
proof -
  define e where "e = expo q"
  define u :: rat where "u = 2 powi (e - 52)"
  have u: "0 < u" by (simp add: u_def)
  have lo: "2 powi e \<le> q" and hi: "q < 2 powi (e + 1)"
    using expo_bounds[OF assms] by (auto simp: e_def)
  have e52: "(2::rat) powi e = of_int (2 ^ 52) * u"
    unfolding u_def using power_int_add[of "2::rat" 52 "e - 52"] by simp
  have "(2::rat) powi (e + 1) = 2 powi (53 + (e - 52))"
    by (rule arg_cong[where f = "\<lambda>k. 2 powi k"]) simp
  also have "\<dots> = 2 powi 53 * 2 powi (e - 52)"
    by (rule power_int_add) simp
  finally have e53: "(2::rat) powi (e + 1) = of_int (2 ^ 53) * u"
    by (simp add: u_def)
  have "of_int (2 ^ 52) \<le> q / u"
    using lo u unfolding e52 by (simp add: pos_le_divide_eq)
  then have 1: "2 ^ 52 \<le> rne (q / u)" by (rule rne_ge)
  have "q / u \<le> of_int (2 ^ 53)"
    using hi u unfolding e53 by (simp add: pos_divide_le_eq)
  then have 2: "rne (q / u) \<le> 2 ^ 53" by (rule rne_le)
  have f: "fl q = of_int (rne (q / u)) * u"
    using fl_pos_eq[OF assms] by (simp add: u_def e_def)
  have "(of_int (2 ^ 52) :: rat) \<le> of_int (rne (q / u))"
    using 1 by (simp only: of_int_le_iff)
  then have "of_int (2 ^ 52) * u \<le> of_int (rne (q / u)) * u"
    using u by (intro mult_right_mono) simp_all
  then show "2 powi (expo q) \<le> fl q" using f e52 by (simp add: e_def)
  have "(of_int (rne (q / u)) :: rat) \<le> of_int (2 ^ 53)"
    using 2 by (simp only: of_int_le_iff)
  then have "of_int (rne (q / u)) * u \<le> of_int (2 ^ 53) * u"
    using u by (intro mult_right_mono) simp_all
  then show "fl q \<le> 2 powi (expo q + 1)" using f e53 by (simp add: e_def)
qed

lemma fl_pos: "0 < q \<Longrightarrow> 0 < fl q"
  by (rule less_le_trans[OF _ fl_range(1)]) simp_all

lemma fl_mono_pos:
  assumes "0 < x" "x \<le> y"
  shows "fl x \<le> fl y"
proof -
  have y: "0 < y" using assms by simp
  have le: "expo x \<le> expo y" using assms by (rule expo_mono)
  show ?thesis
  proof (cases "expo x = expo y")
    case True
    define u :: rat where "u = 2 powi (expo y - 52)"
    have u: "0 < u" by (simp add: u_def)
    have "x / u \<le> y / u" using assms(2) u by (simp add: divide_right_mono)
    then have "rne (x / u) \<le> rne (y / u)" by (rule rne_mono)
    then have "of_int (rne (x / u)) * u \<le> of_int (rne (y / u)) * u"
      using u by (intro mult_right_mono) simp_all
    then show ?thesis
      using fl_pos_eq[OF assms(1)] fl_pos_eq[OF y] True by (simp add: u_def)
  next
    case False
    then have "expo x + 1 \<le> expo y" using le by simp
    then have "(2::rat) powi (expo x + 1) \<le> 2 powi (expo y)"
      by (intro power_int_increasing) simp_all
    then show ?thesis
      using fl_range(2)[OF assms(1)] fl_range(1)[OF y] by simp
  qed
qed

lemma fl_mono:
  assumes "x \<le> y"
  shows "fl x \<le> fl y"
proof -
  consider "0 < x" | "y < 0" | "x \<le> 0" "0 \<le> y" by linarith
  then show ?thesis
  proof cases
    case 1
    then show ?thesis using assms by (rule fl_mono_pos)
  next
    case 2
    then have "fl (- y) \<le> fl (- x)" using assms by (intro fl_mono_pos) simp_all
    then show ?thesis by (simp add: fl_minus)
  next
    case 3
    have "fl x \<le> 0"
    proof (cases "x = 0")
      case False
      then have "0 < fl (- x)" using 3 by (intro fl_pos) simp
      then show ?thesis by (simp add: fl_minus)
    qed simp
    moreover have "0 \<le> fl y"
    proof (cases "y = 0")
      case False
      then have "0 < fl y" using 3 by (intro fl_pos) simp
      then show ?thesis by simp
    qed simp
    ultimately show ?thesis by simp
  qed
qed

lemma fl_exact_pos:
  assumes "0 < n" "n < 2 ^ 53"
  shows "fl (of_int n * 2 powi j) = of_int n * 2 powi j"
proof -
  define q :: rat where "q = of_int n * 2 powi j"
  have q: "0 < q" using assms by (simp add: q_def)
  define e where "e = expo q"
  have "2 powi e \<le> q" using expo_bounds[OF q] by (simp add: e_def)
  also have "q < of_int (2 ^ 53) * 2 powi j"
  proof -
    have "(of_int n :: rat) < of_int (2 ^ 53)"
      using assms(2) by (simp only: of_int_less_iff)
    then show ?thesis
      unfolding q_def by (intro mult_strict_right_mono) simp_all
  qed
  also have "\<dots> = 2 powi (53 + j)"
    using power_int_add[of "2::rat" 53 j] by simp
  finally have "e < 53 + j" by (rule pow2_less_cancel)
  then have k: "0 \<le> j - (e - 52)" by simp
  have "q / 2 powi (e - 52) = of_int n * 2 powi (j - (e - 52))"
    unfolding q_def using power_int_diff[of "2::rat" j "e - 52"] by simp
  also have "\<dots> = of_int (n * 2 ^ nat (j - (e - 52)))"
    using k by (simp add: power_int_def)
  finally have "rne (q / 2 powi (e - 52)) = n * 2 ^ nat (j - (e - 52))"
    by (simp only: rne_of_int)
  then have "fl q = of_int (n * 2 ^ nat (j - (e - 52))) * 2 powi (e - 52)"
    using fl_pos_eq[OF q] by (simp add: e_def)
  also have "\<dots> = of_int n * (2 powi (j - (e - 52)) * 2 powi (e - 52))"
    using k by (simp add: power_int_def)
  also have "\<dots> = q"
    unfolding q_def by (simp flip: power_int_add)
  finally show ?thesis by (simp add: q_def)
qed

lemma fl_exact:
  assumes "\<bar>n\<bar> < 2 ^ 53"
  shows "fl (of_int n * 2 powi j) = of_int n * 2 powi j"
proof -
  consider "n = 0" | "0 < n" | "n < 0" by linarith
  then show ?thesis
  proof cases
    case 2
    then show ?thesis using assms by (intro fl_exact_pos) simp_all
  next
    case 3
    then have "fl (of_int (- n) * 2 powi j) = of_int (- n) * 2 powi j"
      using assms by (intro fl_exact_pos) simp_all
    then show ?thesis using fl_minus[of "of_int n * 2 powi j"] by simp
  qed simp
qed

lemma fl_of_int: "\<bar>n\<bar> < 2 ^ 53 \<Longrightarrow> fl (of_int n) = of_int n"
  using fl_exact[of n 0] by simp

lemma py_int_of_int [simp]: "py_int (of_int n) = n"
  by (simp add: py_int_def)

lemma py_int_mono:
  assumes "x \<le> y"
  shows "py_int x \<le> py_int y"
proof -
  consider "0 \<le> x" | "y < 0" | "x < 0" "0 \<le> y" by linarith
  then show ?thesis
  proof cases
    case 1
    then show ?thesis using assms by (simp add: py_int_def floor_mono)
  next
    case 2
    then show ?thesis using assms by (simp add: py_int_def ceiling_mono)
  next
    case 3
    then have "\<lceil>x\<rceil> \<le> 0" "0 \<le> \<lfloor>y\<rfloor>" by (simp_all add: ceiling_le_iff)
    then have "\<lceil>x\<rceil> \<le> \<lfloor>y\<rfloor>" by (rule order_trans)
    then show ?thesis using 3 by (simp add: py_int_def)
  qed
qed

section \<open>The constants and some concrete runs of the geometry\<close>

lemma PORTRAIT_ASPECT_RATIO_val: "PORTRAIT_ASPECT_RATIO = 3 / 4"
  by code_simp

lemma VERTICAL_EXPANSION_FACTOR_val:
  "VERTICAL_EXPANSION_FACTOR = 8106479329266893 / 4503599627370496"
  by code_simp


lemma FACE_VERTICAL_ANCHOR_val:
  "FACE_VERTICAL_ANCHOR = 8286623314361713 / 36028797018963968"
  by code_simp

lemma crop_size_80_120: "crop_size 80 120 = (162, 216)"
  by code_simp

lemma crop_origin_example: "crop_origin 100 100 180 162 216 = (59, 50)"
  by code_simp


section \<open>Crop geometry: clamping\<close>

text \<open>
  C3 (containment). Whenever the computed crop size \<open>(W, H)\<close> fits in the image, the
  rectangle returned by \<open>calculate_3_4_crop\<close> has its left and top edges at or after
  0 and its right and bottom edges, which are the left and top edges plus \<open>W\<close> and
  \<open>H\<close>, inside the image.
\<close>

theorem containment:
  assumes "crop_size (x1 - x0) (y1 - y0) = (W, H)"
    and "W \<le> img_w" and "H \<le> img_h"
    and "calculate_3_4_crop (x0, y0, x1, y1) img_w img_h = (cx0, cy0, cx1, cy1)"
  shows "0 \<le> cx0 \<and> cx0 + W \<le> img_w \<and> 0 \<le> cy0 \<and> cy0 + H \<le> img_h
         \<and> cx1 = cx0 + W \<and> cy1 = cy0 + H"
  using assms
  by (auto simp: calculate_3_4_crop_def Let_def max_def min_def split: prod.splits)

theorem containment_witness:
  "crop_size (180 - 100) (220 - 100) = (162, 216) \<and> (162::int) \<le> 1000 \<and> (216::int) \<le> 1000
   \<and> calculate_3_4_crop (100, 100, 180, 220) 1000 1000 = (59, 50, 221, 266)
   \<and> (0::int) \<le> 59 \<and> (59::int) + 162 \<le> 1000 \<and> (0::int) \<le> 50 \<and> (50::int) + 216 \<le> 1000"
proof -
  have s: "crop_size (180 - 100) (220 - 100) = (162, 216)"
    by (simp add: crop_size_80_120)
  have c: "calculate_3_4_crop (100, 100, 180, 220) 1000 1000 = (59, 50, 221, 266)"
    by (simp add: calculate_3_4_crop_def crop_size_80_120 crop_origin_example)
  show ?thesis
    using containment[OF s _ _ c] s c by simp
qed



section \<open>Crop geometry: sizes\<close>



lemma float_of_int_exact: "\<bar>n\<bar> < 2 ^ 53 \<Longrightarrow> float_of_int n = of_int n"
  unfolding float_of_int_def by (rule fl_of_int)





section \<open>Crop geometry: aspect ratio\<close>

lemma crop_height_bounds:
  assumes "0 < h" "h < 2 ^ 49"
  defines "H0 \<equiv> py_int (fmul (float_of_int h) VERTICAL_EXPANSION_FACTOR)"
  shows "0 \<le> H0" and "H0 \<le> 2 ^ 50"
proof -
  define x where "x = fmul (float_of_int h) VERTICAL_EXPANSION_FACTOR"
  have fh: "float_of_int h = of_int h"
    using assms(1,2) by (intro float_of_int_exact) simp
  have x: "x = fl (of_int h * VERTICAL_EXPANSION_FACTOR)"
    by (simp add: x_def fmul_def fh)
  have h0: "(0::rat) < of_int h" using assms(1) by simp
  have h1: "(of_int h :: rat) \<le> of_int (2 ^ 49)"
    using assms(2) by simp
  have "(0::rat) \<le> of_int h * VERTICAL_EXPANSION_FACTOR"
    using h0 by (simp add: VERTICAL_EXPANSION_FACTOR_val)
  then have "fl 0 \<le> fl (of_int h * VERTICAL_EXPANSION_FACTOR)" by (rule fl_mono)
  then have x0: "0 \<le> x" by (simp add: x)
  have "of_int h * VERTICAL_EXPANSION_FACTOR \<le> of_int h * (2::rat)"
    using h0 by (intro mult_left_mono) (simp_all add: VERTICAL_EXPANSION_FACTOR_val)
  also have "\<dots> \<le> of_int (2 ^ 49) * 2"
    using h1 by (intro mult_right_mono) simp_all
  also have "\<dots> = of_int (2 ^ 50)" by simp
  finally have "fl (of_int h * VERTICAL_EXPANSION_FACTOR) \<le> fl (of_int (2 ^ 50))"
    by (rule fl_mono)
  also have "fl (of_int (2 ^ 50)) = of_int (2 ^ 50)"
    by (rule fl_of_int) simp
  finally have x1: "x \<le> of_int (2 ^ 50)" by (simp add: x)
  have "py_int 0 \<le> py_int x" using x0 by (rule py_int_mono)
  then show "0 \<le> H0" by (simp add: H0_def x_def py_int_def)
  have "py_int x \<le> py_int (of_int (2 ^ 50))" using x1 by (rule py_int_mono)
  then show "H0 \<le> 2 ^ 50" by (simp only: py_int_of_int H0_def x_def)
qed

lemma three_quarters:
  assumes "0 \<le> H" "H \<le> 2 ^ 50"
  shows "py_int (fmul (float_of_int H) PORTRAIT_ASPECT_RATIO) = (3 * H) div 4"
proof -
  have fH: "float_of_int H = of_int H"
    using assms by (intro float_of_int_exact) simp
  have e: "of_int H * (3 / 4 :: rat) = of_int (3 * H) * 2 powi (- 2)"
    by (simp add: power_int_minus)
  have "fl (of_int (3 * H) * 2 powi (- 2)) = of_int (3 * H) * 2 powi (- 2)"
    using assms by (intro fl_exact) simp
  then have "fl (of_int H * (3 / 4)) = of_int (3 * H) / of_int 4"
    unfolding e[symmetric] by simp
  then have "py_int (fmul (float_of_int H) PORTRAIT_ASPECT_RATIO)
               = py_int (of_int (3 * H) / of_int 4)"
    by (simp only: fmul_def fH PORTRAIT_ASPECT_RATIO_val)
  also have "\<dots> = \<lfloor>(of_int (3 * H) :: rat) / of_int 4\<rfloor>"
    using assms(1) by (simp add: py_int_def)
  also have "\<dots> = (3 * H) div 4"
    by (rule floor_divide_of_int_eq)
  finally show ?thesis .
qed

lemma rne_75:
  assumes "149 / 2 < y" "y \<le> 75"
  shows "rne y = 75"
proof (cases "y = 75")
  case True
  then show ?thesis using rne_of_int[of 75] by simp
next
  case False
  then have "\<lfloor>y\<rfloor> = 74" using assms by (intro floor_unique) simp_all
  then show ?thesis using assms by (simp add: rne_def Let_def)
qed

lemma fl_075: "fl (75 / 100) = 3 / 4"
  using fl_exact[of 3 "- 2"] by (simp add: power_int_minus)

lemma fl_dyadic: "fl (48825 / 65536) = 48825 / 65536"
  using fl_exact[of 48825 "- 16"] by (simp add: power_int_minus)

lemma ratio_rounds:
  assumes "150 < H" "W = (3 * H) div 4"
  shows "py_round2 (int_truediv W H) = fl (75 / 100)"
proof -
  have Hp: "(0::rat) < of_int H" using assms(1) by simp
  have i1: "4 * W \<le> 3 * H" using assms(2) by simp
  have i2: "48825 * H \<le> 65536 * W" using assms by simp
  have "(of_int (4 * W) :: rat) \<le> of_int (3 * H)" using i1 by (simp only: of_int_le_iff)
  then have up: "of_int W / of_int H \<le> (3 / 4 :: rat)"
    using Hp by (simp add: divide_le_eq)
  have "(of_int (48825 * H) :: rat) \<le> of_int (65536 * W)" using i2 by (simp only: of_int_le_iff)
  then have lo: "(48825 / 65536 :: rat) \<le> of_int W / of_int H"
    using Hp by (simp add: le_divide_eq)
  define q where "q = int_truediv W H"
  have q: "q = fl (of_int W / of_int H)" by (simp add: q_def int_truediv_def)
  have "fl (of_int W / of_int H) \<le> fl (3 / 4)" using up by (rule fl_mono)
  then have q_up: "q \<le> 3 / 4" using fl_075 by (simp add: q)
  have "fl (48825 / 65536) \<le> fl (of_int W / of_int H)" using lo by (rule fl_mono)
  then have q_lo: "48825 / 65536 \<le> q" by (simp only: fl_dyadic q)
  have "rne (q * 100) = 75"
    using q_lo q_up by (intro rne_75) simp_all
  then show ?thesis by (simp add: py_round2_def q_def)
qed

lemma not_width_branch_examples:
  "\<not> width_branch 80 120" "\<not> width_branch 60 83" "\<not> width_branch 1 3"
  by code_simp+

lemma crop_size_60_83: "crop_size 60 83 = (111, 149)"
  by code_simp

lemma crop_size_1_3: "crop_size 1 3 = (3, 5)"
  by code_simp

lemma rounded_ratios:
  "py_round2 (int_truediv 162 216) = fl (75 / 100)"
  "py_round2 (int_truediv 111 149) = fl (74 / 100)"
  "py_round2 (int_truediv 3 5) = fl (60 / 100)"
  "fl (74 / 100) < fl (75 / 100)"
  "fl (60 / 100) < fl (74 / 100)"
  by code_simp+

text \<open>
  C8, as amended. When the test of line 60 fails, for a face height \<open>h_f > 0\<close> below
  \<open>2 ^ 49\<close>, the crop width is \<open>3 * H_crop\<close> divided by 4 and rounded down, and
  \<open>round(W_crop / H_crop, 2)\<close> is \<open>0.75\<close> whenever \<open>H_crop\<close> is above 150.
\<close>

theorem aspect_invariant:
  assumes "0 < h" and "h < 2 ^ 49" and "\<not> width_branch w h" and "crop_size w h = (W, H)"
  shows "W = (3 * H) div 4 \<and> (150 < H \<longrightarrow> py_round2 (int_truediv W H) = fl (75 / 100))"
proof -
  define H0 where "H0 = py_int (fmul (float_of_int h) VERTICAL_EXPANSION_FACTOR)"
  have H: "H = H0" and W: "W = py_int (fmul (float_of_int H0) PORTRAIT_ASPECT_RATIO)"
    using assms(3,4) by (auto simp add: crop_size_def width_branch_def Let_def H0_def)
  have b: "0 \<le> H0" "H0 \<le> 2 ^ 50"
    unfolding H0_def by (rule crop_height_bounds[OF assms(1,2)])+
  have Wd: "W = (3 * H) div 4"
    unfolding W H by (rule three_quarters[OF b])
  show ?thesis using Wd ratio_rounds[of H W] by simp
qed

theorem aspect_invariant_witness:
  "(0::int) < 120 \<and> (120::int) < 2 ^ 49 \<and> \<not> width_branch 80 120 \<and> crop_size 80 120 = (162, 216)
   \<and> (162::int) = (3 * 216) div 4 \<and> (150::int) < 216
   \<and> py_round2 (int_truediv 162 216) = fl (75 / 100)"
  using aspect_invariant[OF _ _ not_width_branch_examples(1) crop_size_80_120]
  by (simp add: not_width_branch_examples crop_size_80_120)

text \<open>
  C8 as stated, for crops of every size, fails. For a face of 60 by 83 the crop is 111 by 149
  and the rounded ratio is \<open>0.74\<close>; for a face of 1 by 3 the crop is 3 by 5 and the
  rounded ratio is \<open>0.6\<close>. The test of line 60 fails for both.
\<close>

theorem aspect_invariant_counterexample:
  "\<not> width_branch 60 83 \<and> crop_size 60 83 = (111, 149)
   \<and> py_round2 (int_truediv 111 149) = fl (74 / 100) \<and> fl (74 / 100) < fl (75 / 100)
   \<and> \<not> width_branch 1 3 \<and> crop_size 1 3 = (3, 5)
   \<and> py_round2 (int_truediv 3 5) = fl (60 / 100) \<and> fl (60 / 100) < fl (74 / 100)"
  by (simp only: not_width_branch_examples crop_size_60_83 crop_size_1_3 rounded_ratios simp_thms)

section \<open>The batch\<close>

lemma eligible_examples:
  "eligible file_a" "eligible file_b" "eligible file_c" "\<not> eligible file_txt"
  unfolding eligible_def file_a_def file_b_def file_c_def file_txt_def by code_simp+

lemma get_face_bbox_face_img: "get_face_bbox face_img = Inr (Some (100, 100, 180, 220))"
  by (simp add: get_face_bbox_def get_face_bbox_try_def face_img_def py_max_def area_key_def)

lemma try_body_file_a:
  "try_body out file_a =
     ([Mkdir (out @ [''sub'']), Save (out @ [''sub'', ''a.png'']) ''PNG''], Inr (Success ''a.png''))"
proof -
  have l: "lower ''.png'' = ''.png''" by code_simp
  have c: "calculate_3_4_crop (100, 100, 180, 220) 1000 1000 = (59, 50, 221, 266)"
    by (simp add: calculate_3_4_crop_def crop_size_80_120 crop_origin_example)
  have o: "open_image file_a = Inr face_img" by (simp add: file_a_def)
  show ?thesis
    unfolding try_body_def o
    by (simp add: get_face_bbox_face_img) (simp add: face_img_def file_a_def c l)
qed

lemma try_body_file_b: "try_body out file_b = ([], Inl (PyException ''cannot identify image file''))"
  by (simp add: try_body_def file_b_def)

lemma get_face_bbox_detector_fails: "get_face_bbox detector_fails_img = Inr None"
  by (simp add: get_face_bbox_def get_face_bbox_try_def detector_fails_img_def)

lemma try_body_file_c: "try_body out file_c = ([], Inr (NoFace ''c.jpeg''))"
proof -
  have o: "open_image file_c = Inr detector_fails_img" by (simp add: file_c_def)
  show ?thesis
    unfolding try_body_def o by (simp add: get_face_bbox_detector_fails) (simp add: file_c_def)
qed

lemma try_body_line:
  assumes "snd (try_body out f) = Inr l"
  shows "l = Success (file_name f) \<or> l = NoFace (file_name f)"
  using assms
  by (auto simp: try_body_def Let_def split: sum.splits option.splits)

lemma log_of_failed: "is_failed (log_of out f) = raises out f"
proof (cases "snd (try_body out f)")
  case (Inl e)
  then show ?thesis by (cases e) (simp add: log_of_def raises_def)
next
  case (Inr l)
  then show ?thesis using try_body_line[OF Inr] by (auto simp: log_of_def raises_def)
qed

lemma log_of_ok:
  assumes "\<not> raises out f"
  shows "log_of out f = Success (file_name f) \<or> log_of out f = NoFace (file_name f)"
proof (cases "snd (try_body out f)")
  case (Inl e)
  then show ?thesis using assms by (simp add: raises_def)
next
  case (Inr l)
  then show ?thesis using try_body_line[OF Inr] by (auto simp: log_of_def)
qed

lemma logs_append: "logs (xs @ ys) = logs xs @ logs ys"
  by (induction xs rule: logs.induct) simp_all

lemma progress_values_append: "progress_values (xs @ ys) = progress_values xs @ progress_values ys"
  by (induction xs rule: progress_values.induct) simp_all

lemma loop_logs: "logs (fst (loop out n i fs)) = map (log_of out) fs"
  by (induction fs arbitrary: i) (simp_all add: Let_def case_prod_beta)

lemma loop_progress:
  "progress_values (fst (loop out n i fs)) = map (\<lambda>k. progress k n) [i ..< i + length fs]"
proof (induction fs arbitrary: i)
  case Nil
  then show ?case by simp
next
  case (Cons f fs)
  have "i < i + length (f # fs)" by simp
  from upt_conv_Cons[OF this]
  have "[i ..< i + length (f # fs)] = i # [Suc i ..< Suc i + length fs]" by simp
  then show ?case using Cons[of "Suc i"] by (simp add: Let_def case_prod_beta)
qed

lemma loop_no_finished: "count_list (fst (loop out n i fs)) Finished = 0"
  by (induction fs arbitrary: i) (simp_all add: Let_def case_prod_beta)

lemma run_nonempty:
  assumes "filter eligible listing \<noteq> []"
  shows "fst (run listing out)
           = fst (loop out (length (filter eligible listing)) 0 (filter eligible listing)) @ [Finished]"
  using assms by (simp add: run_def Let_def split: prod.splits)

lemma failed_count: "length (filter is_failed (map (log_of out) fs)) = length (filter (raises out) fs)"
  by (induction fs) (simp_all add: log_of_failed)

text \<open>
  Each collaborator step that raises is the failing step of its file, provided the steps
  before it did not raise.
\<close>

lemma decode_raises:
  "open_image f = Inl e \<Longrightarrow> failing_step out f = Some e"
  by (simp add: failing_step_def)

lemma conversion_raises:
  "open_image f = Inr img \<Longrightarrow> rgb_array img = Some e \<Longrightarrow> failing_step out f = Some e"
  by (simp add: failing_step_def)

lemma crop_step_raises:
  "open_image f = Inr img \<Longrightarrow> rgb_array img = None \<Longrightarrow> selected_bbox img = Some bbox \<Longrightarrow>
   crop_raises img (calculate_3_4_crop bbox (fst (img_size img)) (snd (img_size img))) = Some e \<Longrightarrow>
   failing_step out f = Some e"
  by (simp add: failing_step_def)

lemma mkdir_step_raises:
  "open_image f = Inr img \<Longrightarrow> rgb_array img = None \<Longrightarrow> selected_bbox img = Some bbox \<Longrightarrow>
   crop_raises img (calculate_3_4_crop bbox (fst (img_size img)) (snd (img_size img))) = None \<Longrightarrow>
   mkdir_raises f = Some e \<Longrightarrow> failing_step out f = Some e"
  by (simp add: failing_step_def)

lemma save_step_raises:
  "open_image f = Inr img \<Longrightarrow> rgb_array img = None \<Longrightarrow> selected_bbox img = Some bbox \<Longrightarrow>
   crop_raises img (calculate_3_4_crop bbox (fst (img_size img)) (snd (img_size img))) = None \<Longrightarrow>
   mkdir_raises f = None \<Longrightarrow>
   save_raises img (out @ parent_rel f @ [file_name f])
     (if lower (file_suffix f) \<in> set [''.jpg'', ''.jpeg''] then ''JPEG'' else ''PNG'') = Some e \<Longrightarrow>
   failing_step out f = Some e"
  by (simp add: failing_step_def)

lemma get_face_bbox_selected:
  "rgb_array img = None \<Longrightarrow> get_face_bbox img = Inr (selected_bbox img)"
  by (simp add: get_face_bbox_def selected_bbox_def split: sum.splits)

text \<open>The body of the \<open>try\<close> raises exactly the failing step's exception.\<close>

lemma try_body_failing_step:
  "snd (try_body out f) =
     (case failing_step out f of
        Some e \<Rightarrow> Inl e
      | None \<Rightarrow> (case open_image f of
                   Inl e \<Rightarrow> Inl e
                 | Inr img \<Rightarrow> (case selected_bbox img of
                                None \<Rightarrow> Inr (NoFace (file_name f))
                              | Some bbox \<Rightarrow> Inr (Success (file_name f)))))"
proof (cases "open_image f")
  case (Inl e)
  then show ?thesis by (simp add: try_body_def failing_step_def)
next
  case (Inr img)
  show ?thesis
  proof (cases "rgb_array img")
    case (Some e)
    then show ?thesis using Inr
      by (simp add: try_body_def failing_step_def get_face_bbox_def)
  next
    case None
    show ?thesis
      using Inr None get_face_bbox_selected[OF None]
      by (simp add: try_body_def failing_step_def Let_def split: option.splits)
  qed
qed

lemma log_of_failing_step:
  "case failing_step out f of
     Some e \<Rightarrow> log_of out f = Error (file_name f) (message e)
   | None \<Rightarrow> log_of out f = Success (file_name f) \<or> log_of out f = NoFace (file_name f)"
proof (cases "failing_step out f")
  case None
  then show ?thesis
    using try_body_failing_step[of out f]
    by (auto simp: log_of_def failing_step_def split: sum.splits option.splits)
next
  case (Some e)
  then show ?thesis
    using try_body_failing_step[of out f] by (cases e) (simp add: log_of_def)
qed

lemma raises_failing_step: "raises out f = (failing_step out f \<noteq> None)"
  using try_body_failing_step[of out f]
  by (auto simp: raises_def failing_step_def split: sum.splits option.splits)

lemma failed_count_steps:
  "length (filter is_failed (map (log_of out) fs))
     = length (filter (\<lambda>f. failing_step out f \<noteq> None) fs)"
  by (induction fs) (simp_all add: log_of_failed raises_failing_step)

text \<open>
  C1 (batch resilience), as amended. For a batch of \<open>N \<ge> 1\<close> eligible files, of which
  \<open>M\<close> have a step that raises among decoding, the conversion to an array, cropping,
  creating the directory and encoding, the run logs exactly \<open>N\<close> lines, one per file
  and in order, and ends with the only \<open>Finished\<close> event. Each of those \<open>M\<close> files is
  logged as failed with the text of the exception of its failing step, every other file
  is logged as cropped or as having no face, and exactly \<open>M\<close> lines are failures. The
  detector call is not among these steps: its exception gives the no-face line (see
  \<open>detector_exception_is_no_face\<close>).
\<close>

theorem batch_resilience:
  assumes "files = filter eligible listing" and "files \<noteq> []"
  shows "length (logs (fst (run listing out))) = length files
       \<and> count_list (fst (run listing out)) Finished = 1
       \<and> last (fst (run listing out)) = Finished
       \<and> logs (fst (run listing out)) = map (log_of out) files
       \<and> (\<forall>f \<in> set files.
             case failing_step out f of
               Some e \<Rightarrow> log_of out f = Error (file_name f) (message e)
             | None \<Rightarrow> log_of out f = Success (file_name f) \<or> log_of out f = NoFace (file_name f))
       \<and> length (filter is_failed (logs (fst (run listing out))))
           = length (filter (\<lambda>f. failing_step out f \<noteq> None) files)"
proof -
  have r: "fst (run listing out) = fst (loop out (length files) 0 files) @ [Finished]"
    using assms run_nonempty[of listing out] by simp
  have l: "logs (fst (run listing out)) = map (log_of out) files"
    by (simp add: r logs_append loop_logs)
  have c: "count_list (fst (run listing out)) Finished = 1"
    by (simp add: r count_list_append loop_no_finished)
  have e: "\<forall>f \<in> set files.
             case failing_step out f of
               Some e \<Rightarrow> log_of out f = Error (file_name f) (message e)
             | None \<Rightarrow> log_of out f = Success (file_name f) \<or> log_of out f = NoFace (file_name f)"
    using log_of_failing_step by blast
  have m: "length (filter is_failed (logs (fst (run listing out))))
             = length (filter (\<lambda>f. failing_step out f \<noteq> None) files)"
    unfolding l by (rule failed_count_steps)
  have t: "last (fst (run listing out)) = Finished"
    by (simp add: r)
  show ?thesis
    using l c e m t by simp
qed

lemma selected_bbox_examples:
  "selected_bbox face_img = Some (100, 100, 180, 220)"
  "selected_bbox crop_fails_img = Some (100, 100, 180, 220)"
  "selected_bbox save_fails_img = Some (100, 100, 180, 220)"
  "selected_bbox detector_fails_img = None"
  by (simp_all add: selected_bbox_def get_face_bbox_try_def py_max_def area_key_def
        face_img_def crop_fails_img_def save_fails_img_def detector_fails_img_def)

lemma failing_step_examples:
  "failing_step out file_a = None"
  "failing_step out file_b = Some (PyException ''cannot identify image file'')"
  "failing_step out file_c = None"
  "failing_step out file_d = Some (PyException ''cannot convert'')"
  "failing_step out file_e = Some (PyException ''crop failed'')"
  "failing_step out file_f = Some (PyException ''permission denied'')"
  "failing_step out file_g = Some (PyException ''disk full'')"
proof -
  have o: "open_image file_a = Inr face_img" "open_image file_c = Inr detector_fails_img"
    "open_image file_d = Inr unconvertible_img" "open_image file_e = Inr crop_fails_img"
    "open_image file_f = Inr face_img" "open_image file_g = Inr save_fails_img"
    by (simp_all add: file_a_def file_c_def file_d_def file_e_def file_f_def file_g_def)
  have g: "rgb_array face_img = None" "rgb_array detector_fails_img = None"
    "rgb_array crop_fails_img = None" "rgb_array save_fails_img = None"
    by (simp_all add: face_img_def detector_fails_img_def crop_fails_img_def save_fails_img_def)
  show "failing_step out file_a = None"
    unfolding failing_step_def o by (simp add: g selected_bbox_examples) (simp add: face_img_def file_a_def)
  show "failing_step out file_b = Some (PyException ''cannot identify image file'')"
    by (rule decode_raises) (simp add: file_b_def)
  show "failing_step out file_c = None"
    unfolding failing_step_def o by (simp add: g selected_bbox_examples)
  show "failing_step out file_d = Some (PyException ''cannot convert'')"
    by (rule conversion_raises[OF o(3)]) (simp add: unconvertible_img_def)
  show "failing_step out file_e = Some (PyException ''crop failed'')"
    by (rule crop_step_raises[OF o(4) g(3) selected_bbox_examples(2)]) (simp add: crop_fails_img_def)
  show "failing_step out file_f = Some (PyException ''permission denied'')"
    by (rule mkdir_step_raises[OF o(5) g(1) selected_bbox_examples(1)])
       (simp_all add: face_img_def file_f_def)
  show "failing_step out file_g = Some (PyException ''disk full'')"
    by (rule save_step_raises[OF o(6) g(4) selected_bbox_examples(3)])
       (simp_all add: save_fails_img_def file_g_def)
qed

lemma file_names:
  "file_name file_a = ''a.png''" "file_name file_b = ''b.JPG''" "file_name file_c = ''c.jpeg''"
  "file_name file_d = ''d.png''" "file_name file_e = ''e.png''" "file_name file_f = ''f.png''"
  "file_name file_g = ''g.jpg''"
  by (simp_all add: file_a_def file_b_def file_c_def file_d_def file_e_def file_f_def file_g_def)

lemma log_of_examples:
  "log_of out file_a = Success ''a.png''"
  "log_of out file_b = Error ''b.JPG'' ''cannot identify image file''"
  "log_of out file_c = NoFace ''c.jpeg''"
  by (simp_all add: log_of_def try_body_file_a try_body_file_b try_body_file_c)
     (simp add: file_b_def)

lemma log_of_failing_examples:
  "log_of out file_d = Error ''d.png'' ''cannot convert''"
  "log_of out file_e = Error ''e.png'' ''crop failed''"
  "log_of out file_f = Error ''f.png'' ''permission denied''"
  "log_of out file_g = Error ''g.jpg'' ''disk full''"
  using log_of_failing_step[of out file_d] log_of_failing_step[of out file_e]
        log_of_failing_step[of out file_f] log_of_failing_step[of out file_g]
  by (simp_all add: failing_step_examples file_names)

lemma raises_examples:
  "\<not> raises out file_a" "raises out file_b" "\<not> raises out file_c"
  by (simp_all add: raises_def try_body_file_a try_body_file_b try_body_file_c)

lemma eligible_failing_examples:
  "eligible file_d" "eligible file_e" "eligible file_f" "eligible file_g"
  unfolding eligible_def file_d_def file_e_def file_f_def file_g_def by code_simp+

theorem batch_resilience_witness:
  "[file_a, file_b, file_c, file_d, file_e, file_f, file_g]
     = filter eligible [file_a, file_txt, file_b, file_c, file_d, file_e, file_f, file_g]
   \<and> logs (fst (run [file_a, file_txt, file_b, file_c, file_d, file_e, file_f, file_g] [''out'']))
       = [Success ''a.png'', Error ''b.JPG'' ''cannot identify image file'', NoFace ''c.jpeg'',
          Error ''d.png'' ''cannot convert'', Error ''e.png'' ''crop failed'',
          Error ''f.png'' ''permission denied'', Error ''g.jpg'' ''disk full'']
   \<and> count_list (fst (run [file_a, file_txt, file_b, file_c, file_d, file_e, file_f, file_g] [''out'']))
        Finished = 1
   \<and> last (fst (run [file_a, file_txt, file_b, file_c, file_d, file_e, file_f, file_g] [''out'']))
       = Finished
   \<and> length (filter is_failed
        (logs (fst (run [file_a, file_txt, file_b, file_c, file_d, file_e, file_f, file_g] [''out''])))) = 5"
proof -
  have f: "[file_a, file_b, file_c, file_d, file_e, file_f, file_g]
             = filter eligible [file_a, file_txt, file_b, file_c, file_d, file_e, file_f, file_g]"
    by (simp add: eligible_examples eligible_failing_examples)
  have n: "[file_a, file_b, file_c, file_d, file_e, file_f, file_g] \<noteq> []" by simp
  show ?thesis
    using batch_resilience[OF f n, of "[''out'']"]
    by (simp add: eligible_examples eligible_failing_examples log_of_examples
          log_of_failing_examples failing_step_examples)
qed

text \<open>
  C1 as stated counts an exception raised during detection among those that make a file
  fail. The detector raises on \<open>file_c\<close>, and the file is logged as having no face.
\<close>

theorem batch_resilience_counterexample:
  "eligible file_c \<and> detector_raises file_c
   \<and> logs (fst (run [file_c] [''out''])) = [NoFace ''c.jpeg'']
   \<and> \<not> is_failed (NoFace ''c.jpeg'')"
proof -
  have "detector_raises file_c"
    by (simp add: detector_raises_def file_c_def detector_fails_img_def)
  moreover have "logs (fst (run [file_c] [''out''])) = [NoFace ''c.jpeg'']"
    by (simp add: run_def eligible_examples log_of_examples)
  ultimately show ?thesis by (simp add: eligible_examples)
qed

text \<open>
  C6. An exception raised by the detector call is caught inside \<open>get_face_bbox\<close>, which
  then returns no bounding box; the file is logged as having no face and no exception
  reaches the per-file handler.
\<close>

theorem detector_exception_is_no_face:
  assumes "open_image f = Inr img" and "rgb_array img = None" and "extract_faces img = Inl e"
  shows "get_face_bbox img = Inr None
       \<and> try_body out f = ([], Inr (NoFace (file_name f)))
       \<and> log_of out f = NoFace (file_name f)
       \<and> \<not> raises out f"
proof -
  have g: "get_face_bbox img = Inr None"
    using assms by (simp add: get_face_bbox_def get_face_bbox_try_def)
  then have t: "try_body out f = ([], Inr (NoFace (file_name f)))"
    using assms(1) by (simp add: try_body_def)
  show ?thesis using g t by (simp add: log_of_def raises_def)
qed

theorem detector_exception_is_no_face_witness:
  "open_image file_c = Inr detector_fails_img \<and> rgb_array detector_fails_img = None
   \<and> extract_faces detector_fails_img = Inl (PyException ''detector failed'')
   \<and> get_face_bbox detector_fails_img = Inr None
   \<and> try_body [''out''] file_c = ([], Inr (NoFace ''c.jpeg''))
   \<and> \<not> raises [''out''] file_c"
proof -
  have a: "open_image file_c = Inr detector_fails_img" by (simp add: file_c_def)
  have b: "rgb_array detector_fails_img = None" by (simp add: detector_fails_img_def)
  have c: "extract_faces detector_fails_img = Inl (PyException ''detector failed'')"
    by (simp add: detector_fails_img_def)
  have n: "file_name file_c = ''c.jpeg''" by (simp add: file_c_def)
  show ?thesis
    using detector_exception_is_no_face[OF a b c, of "[''out'']"] a b c n by simp
qed

text \<open>
  C9. When no file under the input root is eligible, the run logs the one line
  \<open>NoImages\<close>, then signals \<open>Finished\<close>, and creates no directory and writes no file.
\<close>

theorem empty_batch:
  assumes "filter eligible listing = []"
  shows "run listing out = ([Log NoImages, Finished], [])
       \<and> logs (fst (run listing out)) = [NoImages]
       \<and> count_list (fst (run listing out)) Finished = 1
       \<and> snd (run listing out) = []"
  using assms by (simp add: run_def)

theorem empty_batch_witness:
  "filter eligible [file_txt] = []
   \<and> run [file_txt] [''out''] = ([Log NoImages, Finished], [])"
proof -
  have h: "filter eligible [file_txt] = []" by (simp add: eligible_examples)
  show ?thesis using empty_batch[OF h, of "[''out'']"] h by simp
qed

section \<open>Progress\<close>

lemma float_of_int_100: "float_of_int 100 = 100"
  using fl_of_int[of 100] by (simp add: float_of_int_def)

lemma fl_1: "fl 1 = 1"
  using fl_of_int[of 1] by simp

lemma fl_100: "fl 100 = 100"
  using fl_of_int[of 100] by simp

lemma progress_mono:
  assumes "i \<le> j" and "0 < n"
  shows "progress i n \<le> progress j n"
proof -
  have "(of_int (int i + 1) :: rat) / of_int (int n) \<le> of_int (int j + 1) / of_int (int n)"
    using assms by (intro divide_right_mono) simp_all
  then have "int_truediv (int i + 1) (int n) \<le> int_truediv (int j + 1) (int n)"
    unfolding int_truediv_def by (rule fl_mono)
  then have "int_truediv (int i + 1) (int n) * 100 \<le> int_truediv (int j + 1) (int n) * 100"
    by simp
  then have "fl (int_truediv (int i + 1) (int n) * 100) \<le> fl (int_truediv (int j + 1) (int n) * 100)"
    by (rule fl_mono)
  then have "py_int (fl (int_truediv (int i + 1) (int n) * 100))
               \<le> py_int (fl (int_truediv (int j + 1) (int n) * 100))"
    by (rule py_int_mono)
  then show ?thesis
    by (simp only: progress_def fmul_def float_of_int_100)
qed


lemma progress_range:
  assumes "i < n"
  shows "0 \<le> progress i n" "progress i n \<le> 100"
proof -
  define q :: rat where "q = of_int (int i + 1) / of_int (int n)"
  have "(of_int (int i + 1) :: rat) \<le> of_int (int n)"
    using assms by simp
  moreover have "(0::rat) < of_int (int n)" using assms by simp
  ultimately have q1: "q \<le> 1" unfolding q_def by (simp only: divide_le_eq_1_pos)
  have q0: "0 \<le> q" unfolding q_def by (intro divide_nonneg_nonneg) simp_all
  have t0: "0 \<le> fl q" using fl_mono[OF q0] by simp
  have t1: "fl q \<le> 1" using fl_mono[OF q1] by (simp add: fl_1)
  have m0: "0 \<le> fl q * 100" using t0 by simp
  have m1: "fl q * 100 \<le> 100" using t1 by simp
  have f0: "0 \<le> fl (fl q * 100)" using fl_mono[OF m0] by simp
  have f1: "fl (fl q * 100) \<le> 100" using fl_mono[OF m1] by (simp add: fl_100)
  have p0: "py_int 0 \<le> py_int (fl (fl q * 100))" using f0 by (rule py_int_mono)
  have p1: "py_int (fl (fl q * 100)) \<le> py_int 100" using f1 by (rule py_int_mono)
  have e: "progress i n = py_int (fl (fl q * 100))"
    by (simp only: progress_def fmul_def int_truediv_def float_of_int_100 q_def)
  show "0 \<le> progress i n" using p0 unfolding e by (simp add: py_int_def)
  show "progress i n \<le> 100" using p1 unfolding e by (simp add: py_int_def)
qed

lemma progress_last:
  assumes "0 < n"
  shows "progress (n - 1) n = 100"
proof -
  have "int (n - 1) + 1 = int n" using assms by simp
  then have "(of_int (int (n - 1) + 1) :: rat) / of_int (int n) = 1"
    using assms by simp
  then have "progress (n - 1) n = py_int (fl (fl 1 * 100))"
    by (simp only: progress_def fmul_def int_truediv_def float_of_int_100)
  then show ?thesis by (simp add: fl_1 fl_100 py_int_def)
qed

lemma sorted_map_upt:
  assumes "\<And>i j. i \<le> j \<Longrightarrow> f i \<le> (f j :: int)"
  shows "sorted (map f [a ..< b])"
  unfolding sorted_iff_nth_mono by (simp add: assms)


lemma progress_values_run:
  assumes "files = filter eligible listing" and "files \<noteq> []"
  shows "progress_values (fst (run listing out))
           = map (\<lambda>i. progress i (length files)) [0 ..< length files]"
proof -
  have r: "fst (run listing out) = fst (loop out (length files) 0 files) @ [Finished]"
    using assms run_nonempty[of listing out] by simp
  show ?thesis
    using loop_progress[of out "length files" 0 files] by (simp add: r progress_values_append)
qed

lemma fl_thirds:
  "fl (1 / 3) = 6004799503160661 / 18014398509481984"
  "fl (2 / 3) = 6004799503160661 / 9007199254740992"
  by code_simp+

lemma progress_of_3: "progress 0 3 = 33" "progress 1 3 = 66" "progress 2 3 = 100"
proof -
  show "progress 0 3 = 33"
    by (simp add: progress_def int_truediv_def fmul_def float_of_int_100 fl_thirds) code_simp
  show "progress 1 3 = 66"
    by (simp add: progress_def int_truediv_def fmul_def float_of_int_100 fl_thirds) code_simp
  show "progress 2 3 = 100"
    using progress_last[of 3] by simp
qed

lemma progress_of_3_list: "map (\<lambda>i. progress i 3) [0, 1, 2] = [33, 66, 100]"
  by (simp only: list.map progress_of_3)

lemma progress_spec_of_3:
  "progress_spec 1 3 = 33" "progress_spec 2 3 = 67" "progress_spec 3 3 = 100"
proof -
  show "progress_spec 1 3 = 33"
    by (simp add: progress_spec_def py_round_def int_truediv_def fmul_def float_of_int_100 fl_thirds)
       code_simp
  show "progress_spec 2 3 = 67"
    by (simp add: progress_spec_def py_round_def int_truediv_def fmul_def float_of_int_100 fl_thirds)
       code_simp
  show "progress_spec 3 3 = 100"
    by (simp add: progress_spec_def py_round_def int_truediv_def fmul_def float_of_int_100
          fl_1 fl_100)
       code_simp
qed

lemma progress_spec_of_3_list:
  "map (\<lambda>completedCount. progress_spec completedCount 3) [1, 2, 3] = [33, 67, 100]"
  by (simp only: list.map progress_spec_of_3)

lemma upt_3: "[0 ..< 3] = [0, 1, 2]"
  by (simp add: upt_rec)

lemma three_eligible:
  "[file_a, file_b, file_c] = filter eligible [file_a, file_txt, file_b, file_c]"
  "[file_a, file_b, file_c] \<noteq> []"
  "length [file_a, file_b, file_c] = 3"
  by (simp_all add: eligible_examples)

text \<open>
  C4, as amended. In a run over a non-empty list of eligible files the progress values are
  \<open>int(((i + 1) / len(files)) * 100)\<close> for \<open>i\<close> from 0, the float product
  truncated, with the total fixed at the size of the listing; they are non-decreasing
  integers between 0 and 100, and the last one is 100.
\<close>

theorem progress_values_of_run:
  assumes "files = filter eligible listing" and "files \<noteq> []"
  shows "progress_values (fst (run listing out))
           = map (\<lambda>i. progress i (length files)) [0 ..< length files]
       \<and> sorted (progress_values (fst (run listing out)))
       \<and> (\<forall>p \<in> set (progress_values (fst (run listing out))). 0 \<le> p \<and> p \<le> 100)
       \<and> last (progress_values (fst (run listing out))) = 100"
proof -
  define n where "n = length files"
  have n: "0 < n" using assms(2) by (simp add: n_def)
  have v: "progress_values (fst (run listing out)) = map (\<lambda>i. progress i n) [0 ..< n]"
    unfolding n_def by (rule progress_values_run[OF assms])
  have s: "sorted (map (\<lambda>i. progress i n) [0 ..< n])"
    by (rule sorted_map_upt) (rule progress_mono[OF _ n])
  have b: "\<forall>p \<in> set (map (\<lambda>i. progress i n) [0 ..< n]). 0 \<le> p \<and> p \<le> 100"
    using progress_range by simp
  have "[0 ..< n] \<noteq> []" using n by simp
  then have "last (map (\<lambda>i. progress i n) [0 ..< n]) = progress (last [0 ..< n]) n"
    by (rule last_map)
  also have "last [0 ..< n] = n - 1" using n by (cases n) simp_all
  finally have l: "last (map (\<lambda>i. progress i n) [0 ..< n]) = 100"
    using progress_last[OF n] by simp
  show ?thesis
    unfolding v using s b l by (simp add: n_def)
qed

theorem progress_values_of_run_witness:
  "[file_a, file_b, file_c] = filter eligible [file_a, file_txt, file_b, file_c]
   \<and> progress_values (fst (run [file_a, file_txt, file_b, file_c] [''out''])) = [33, 66, 100]
   \<and> sorted [33, 66, 100 :: int] \<and> last [33, 66, 100 :: int] = 100"
proof -
  note R = progress_values_of_run[OF three_eligible(1) three_eligible(2), of "[''out'']",
             unfolded three_eligible(3) upt_3 progress_of_3_list]
  have "progress_values (fst (run [file_a, file_txt, file_b, file_c] [''out''])) = [33, 66, 100]"
    by (rule R[THEN conjunct1])
  then show ?thesis using three_eligible(1) by simp
qed

text \<open>
  C4 as stated has the values rounded to nearest. With three files the second value is
  \<open>int(66.66...) = 66\<close>, where \<open>round\<close> gives 67.
\<close>

theorem progress_round_counterexample:
  "progress_values (fst (run [file_a, file_txt, file_b, file_c] [''out''])) = [33, 66, 100]
   \<and> map (\<lambda>completedCount. progress_spec completedCount 3) [1, 2, 3] = [33, 67, 100]"
proof -
  have "progress_values (fst (run [file_a, file_txt, file_b, file_c] [''out''])) = [33, 66, 100]"
    by (rule progress_values_run[OF three_eligible(1) three_eligible(2), of "[''out'']",
               unfolded three_eligible(3) upt_3 progress_of_3_list])
  then show ?thesis by (simp only: progress_spec_of_3_list simp_thms)
qed

text \<open>
  C5. With one detector entry that lacks \<open>"facial_area"\<close> and one that has it, the key
  function of \<open>max\<close> raises on the first entry, the bare \<open>except\<close> catches the
  \<open>KeyError\<close>, and \<open>get_face_bbox\<close> returns no bounding box: the entry with an area is
  not selected.
\<close>

theorem face_selection_mixed_entries:
  "extract_faces mixed_img
     = Inr [None, Some \<lparr>area_x = 100, area_y = 100, area_w = 80, area_h = 120\<rparr>]
   \<and> get_face_bbox_try (extract_faces mixed_img) = Inl (key_error ''facial_area'')
   \<and> get_face_bbox mixed_img = Inr None"
  by (simp add: mixed_img_def get_face_bbox_def get_face_bbox_try_def py_max_def area_key_def)

end
